theory Spec2Isabelle
  imports Main "HOL-Library.AList"
begin

section \<open>Topic trie (pyon/net/transport.py, class TopicTrie)\<close>

text \<open>
  A trie node stores its token (\<open>None\<close> for the root), the list of patterns bound at the
  node and a dictionary from tokens to child nodes. The dictionary is an association
  list read with \<open>map_of\<close> and written with \<open>AList.update\<close>, so every key occurs once.
\<close>

datatype 'p node = Node (token: "string option") (patterns: "'p list")
  (children: "(string \<times> 'p node) list")

datatype 'p TopicTrie = TopicTrie (root: "'p node")

text \<open>Python's \<open>s.split(sep)\<close> for a one-character separator: never an empty result.\<close>

fun str_split :: "char \<Rightarrow> string \<Rightarrow> string list" where
  "str_split sep [] = [[]]"
| "str_split sep (c # cs) =
     (if c = sep then [] # str_split sep cs
      else (case str_split sep cs of
              [] \<Rightarrow> [[c]]
            | w # ws \<Rightarrow> (c # w) # ws))"

text \<open>\<open>Node.__init__(token)\<close>: no patterns, no children.\<close>

definition new_node :: "string \<Rightarrow> 'p node" where
  "new_node t = Node (Some t) [] []"

text \<open>
  \<open>Node.get_or_create_child\<close>: the child stored under the token, or a new node. The
  source also stores the new node in \<open>children\<close>; the callers below write the child
  back with \<open>set_child\<close>.
\<close>

definition get_or_create_child :: "'p node \<Rightarrow> string \<Rightarrow> 'p node" where
  "get_or_create_child n t =
     (case map_of (children n) t of Some c \<Rightarrow> c | None \<Rightarrow> new_node t)"

definition set_child :: "string \<Rightarrow> 'p node \<Rightarrow> 'p node \<Rightarrow> 'p node" where
  "set_child t c n = Node (token n) (patterns n) (AList.update t c (children n))"

text \<open>
  \<open>Node.get_all_matches\<close>. The source collects the matches below the \<open>#\<close> child in a
  set before extending the result list with it; the set is enumerated here in order of
  first occurrence (\<open>remdups\<close>), the callers only use the elements.
\<close>

function Node_get_all_matches :: "'p node \<Rightarrow> string list \<Rightarrow> 'p list" where
  "Node_get_all_matches n [] = patterns n"
| "Node_get_all_matches n (cur_token # rem_tokens) =
     (case map_of (children n) cur_token of
        Some c \<Rightarrow> Node_get_all_matches c rem_tokens
      | None \<Rightarrow> [])
     @ (case map_of (children n) ''*'' of
          Some c \<Rightarrow> Node_get_all_matches c rem_tokens
        | None \<Rightarrow> [])
     @ (case map_of (children n) ''#'' of
          Some h \<Rightarrow>
            remdups (concat (map (\<lambda>i. Node_get_all_matches h (drop i rem_tokens))
                                 [0..<length rem_tokens]))
            @ patterns h
        | None \<Rightarrow> [])"
  by pat_completeness auto
termination
  by (relation "measure (\<lambda>(n, ts). length ts)") auto

text \<open>\<open>TopicTrie.__init__\<close>: a root node with token \<open>None\<close>.\<close>

definition TopicTrie_init :: "'p TopicTrie" where
  "TopicTrie_init = TopicTrie (Node None [] [])"

text \<open>
  The descent of \<open>add_topic_tree\<close> along the tokens, then the append of the pattern at
  the terminal node when it is not there yet.
\<close>

fun add_tokens :: "string list \<Rightarrow> 'p \<Rightarrow> 'p node \<Rightarrow> 'p node" where
  "add_tokens [] p n =
     (if p \<in> set (patterns n) then n
      else Node (token n) (patterns n @ [p]) (children n))"
| "add_tokens (t # ts) p n = set_child t (add_tokens ts p (get_or_create_child n t)) n"

definition add_topic_tree :: "string \<Rightarrow> 'p \<Rightarrow> 'p TopicTrie \<Rightarrow> 'p TopicTrie" where
  "add_topic_tree topic_tree pattern tr =
     TopicTrie (add_tokens (str_split CHR ''.'' topic_tree) pattern (root tr))"

text \<open>
  \<open>remove_topic_tree\<close>: the same descent (creating missing nodes), then
  \<open>patterns.remove(pattern)\<close>, which deletes the first occurrence.
\<close>

fun remove_tokens :: "string list \<Rightarrow> 'p \<Rightarrow> 'p node \<Rightarrow> 'p node" where
  "remove_tokens [] p n =
     (if p \<in> set (patterns n) then Node (token n) (remove1 p (patterns n)) (children n)
      else n)"
| "remove_tokens (t # ts) p n =
     set_child t (remove_tokens ts p (get_or_create_child n t)) n"

definition remove_topic_tree :: "string \<Rightarrow> 'p \<Rightarrow> 'p TopicTrie \<Rightarrow> 'p TopicTrie" where
  "remove_topic_tree topic_tree pattern tr =
     TopicTrie (remove_tokens (str_split CHR ''.'' topic_tree) pattern (root tr))"

text \<open>\<open>TopicTrie.get_all_matches\<close>: the set of the root's matches.\<close>

definition get_all_matches :: "'p TopicTrie \<Rightarrow> string \<Rightarrow> 'p set" where
  "get_all_matches tr topic_tree =
     set (Node_get_all_matches (root tr) (str_split CHR ''.'' topic_tree))"

section \<open>Errors\<close>

text \<open>
  The exceptions the modelled code raises: a failed \<open>assert\<close>, a missing dictionary
  key, a missing attribute, and \<open>int()\<close> of a string that is no number. The string says
  where the exception comes from.
\<close>

datatype error = AssertionError string | KeyError string | AttributeError string
  | ValueError string

section \<open>LocalBroker.declare_exchange\<close>

record exrec =
  ex_exchange :: string
  ex_type :: string
  ex_durable :: bool
  ex_auto_delete :: bool

text \<open>Of the broker's fields \<open>declare_exchange\<close> reads and writes \<open>_exchanges\<close> only.\<close>

record LocalBroker =
  lb_exchanges :: "string \<rightharpoonup> exrec"

definition LocalBroker_init :: LocalBroker where
  "LocalBroker_init = \<lparr>lb_exchanges = Map.empty\<rparr>"

definition LocalBroker_declare_exchange ::
  "string \<Rightarrow> string \<Rightarrow> bool \<Rightarrow> bool \<Rightarrow> LocalBroker \<Rightarrow> (error + bool) \<times> LocalBroker" where
  "LocalBroker_declare_exchange exchange exchange_type durable auto_delete b =
     (case lb_exchanges b exchange of
        Some r \<Rightarrow>
          (if ex_type r = exchange_type \<and> ex_durable r = durable
               \<and> ex_auto_delete r = auto_delete
           then (Inr True, b)
           else (Inl (AssertionError ''exchange attributes''), b))
      | None \<Rightarrow>
          (if exchange_type = ''topic''
           then (Inr True,
                 b\<lparr>lb_exchanges := (lb_exchanges b)(exchange \<mapsto>
                      \<lparr>ex_exchange = exchange, ex_type = exchange_type,
                       ex_durable = durable, ex_auto_delete = auto_delete\<rparr>)\<rparr>)
           else (Inl (AssertionError ''Topic only supported''), b)))"

section \<open>ZeroMQRouter: state\<close>

text \<open>A routed message is the tuple \<open>(exchange, routing_key, body, props)\<close>.\<close>

type_synonym ('b, 'h) message = "string \<times> string \<times> 'b \<times> 'h"

datatype ('b, 'h) qitem = Message "('b, 'h) message" | ConsumerClosedMessage

text \<open>
  \<open>gevent.queue.Queue\<close> is a library class: a FIFO buffer with \<open>put\<close> (at the tail) and
  \<open>get\<close> (from the head, blocking while the buffer is empty). It has no attribute
  \<open>append\<close>, so calling \<open>append\<close> on a queue raises \<open>AttributeError\<close> and leaves the
  buffer as it is.
\<close>

type_synonym ('b, 'h) Queue = "('b, 'h) qitem list"

definition Queue_put :: "('b, 'h) Queue \<Rightarrow> ('b, 'h) qitem \<Rightarrow> ('b, 'h) Queue" where
  "Queue_put q x = q @ [x]"

definition Queue_append :: "('b, 'h) Queue \<Rightarrow> ('b, 'h) qitem \<Rightarrow> error + ('b, 'h) Queue" where
  "Queue_append q x = Inl (AttributeError ''append'')"

text \<open>
  Modelled from the spec: \<open>pyon.util.pool.IDPool\<close>, which is not among the sources. The
  spec says consumer tags are numbered from a pool of integers that are recycled through
  a free list: \<open>get_id\<close> hands out a released id when there is one and the next unused
  integer otherwise, \<open>release_id\<close> puts an id on the free list.
\<close>

record IDPool =
  ids_free :: "nat list"
  last_id :: nat

definition IDPool_init :: IDPool where
  "IDPool_init = \<lparr>ids_free = [], last_id = 0\<rparr>"

definition get_id :: "IDPool \<Rightarrow> nat \<times> IDPool" where
  "get_id p = (case ids_free p of
                 i # rest \<Rightarrow> (i, p\<lparr>ids_free := rest\<rparr>)
               | [] \<Rightarrow> (Suc (last_id p), p\<lparr>last_id := Suc (last_id p)\<rparr>))"

definition release_id :: "nat \<Rightarrow> IDPool \<Rightarrow> IDPool" where
  "release_id i p = p\<lparr>ids_free := ids_free p @ [i]\<rparr>"

text \<open>
  The greenlet that \<open>start_consume\<close> spawns, as the arguments it is spawned with:
  \<open>_run_consumer(ctag, queue_name, gqueue, callback)\<close>, where \<open>gqueue\<close> is the queue
  object found under \<open>queue_name\<close> at that moment.
\<close>

datatype 'cb greenlet = Spawn_run_consumer string string 'cb

type_synonym 'cb consumer = "string \<times> 'cb \<times> bool \<times> bool \<times> 'cb greenlet"

record ('b, 'h, 'cb) ZeroMQRouter =
  exchanges :: "string \<rightharpoonup> string TopicTrie"
  queues :: "string \<rightharpoonup> ('b, 'h) Queue"
  bindings_by_queue :: "string \<rightharpoonup> (string \<times> string) list"
  consumers :: "string \<rightharpoonup> 'cb consumer list"
  consumers_by_ctag :: "string \<rightharpoonup> string"
  ctag_pool :: IDPool
  unacked :: "string \<rightharpoonup> (string \<times> string \<times> ('b, 'h) message)"
  errors :: "error list"

definition ZeroMQRouter_init :: "('b, 'h, 'cb) ZeroMQRouter" where
  "ZeroMQRouter_init =
     \<lparr>exchanges = Map.empty, queues = Map.empty, bindings_by_queue = Map.empty,
      consumers = Map.empty, consumers_by_ctag = Map.empty, ctag_pool = IDPool_init,
      unacked = Map.empty, errors = []\<rparr>"

text \<open>
  \<open>_bindings_by_queue\<close> and \<open>_consumers\<close> are \<open>defaultdict(list)\<close>: reading a missing
  key stores an empty list under it and returns that list.
\<close>

definition dd_get :: "('k \<rightharpoonup> 'v list) \<Rightarrow> 'k \<Rightarrow> 'v list" where
  "dd_get d k = (case d k of Some l \<Rightarrow> l | None \<Rightarrow> [])"

definition dd_touch :: "('k \<rightharpoonup> 'v list) \<Rightarrow> 'k \<Rightarrow> ('k \<rightharpoonup> 'v list)" where
  "dd_touch d k = d(k \<mapsto> dd_get d k)"

section \<open>ZeroMQRouter: exchanges, queues and bindings\<close>

text \<open>
  The keyword arguments that \<open>declare_exchange\<close> receives (type, durable, auto_delete)
  as a list of name and value; the method never reads them. The other declaring and
  deleting methods ignore theirs as well, and the model leaves them out.
\<close>

type_synonym kwargs = "(string \<times> string) list"

definition declare_exchange ::
  "string \<Rightarrow> kwargs \<Rightarrow> ('b, 'h, 'cb) ZeroMQRouter
     \<Rightarrow> (error + unit) \<times> ('b, 'h, 'cb) ZeroMQRouter" where
  "declare_exchange exchange kw s =
     (if exchanges s exchange = None
      then (Inr (), s\<lparr>exchanges := (exchanges s)(exchange \<mapsto> TopicTrie_init)\<rparr>)
      else (Inr (), s))"

definition delete_exchange ::
  "string \<Rightarrow> ('b, 'h, 'cb) ZeroMQRouter \<Rightarrow> (error + unit) \<times> ('b, 'h, 'cb) ZeroMQRouter" where
  "delete_exchange exchange s =
     (if exchanges s exchange \<noteq> None
      then (Inr (), s\<lparr>exchanges := (exchanges s)(exchange := None)\<rparr>)
      else (Inr (), s))"

text \<open>
  The minting loop of \<open>declare_queue\<close>. \<open>uuid4 i\<close> is the string of the \<open>i\<close>-th UUID
  that \<open>str(uuid4())\<close> produces during the call; the loop runs until a proposed name is
  free, and with a source that never gives a free name it does not return.
\<close>

partial_function (option) mint_queue_name ::
  "(nat \<Rightarrow> string) \<Rightarrow> nat \<Rightarrow> (string \<rightharpoonup> 'q) \<Rightarrow> string option" where
  "mint_queue_name uuid4 i qs =
     (if qs (''q-'' @ take 10 (uuid4 i)) = None
      then Some (''q-'' @ take 10 (uuid4 i))
      else mint_queue_name uuid4 (Suc i) qs)"

text \<open>\<open>declare_queue\<close>: \<open>None\<close> when the minting loop does not return.\<close>

definition declare_queue ::
  "string option \<Rightarrow> (nat \<Rightarrow> string) \<Rightarrow> ('b, 'h, 'cb) ZeroMQRouter
     \<Rightarrow> ((error + string) \<times> ('b, 'h, 'cb) ZeroMQRouter) option" where
  "declare_queue queue uuid4 s =
     (case (if queue = None \<or> queue = Some []
            then mint_queue_name uuid4 0 (queues s) else queue) of
        None \<Rightarrow> None
      | Some name \<Rightarrow>
          Some (Inr name,
                if queues s name = None then s\<lparr>queues := (queues s)(name \<mapsto> [])\<rparr>
                else s))"

text \<open>The loop of \<open>delete_queue\<close> over the recorded bindings of the queue.\<close>

fun kill_bindings ::
  "string \<Rightarrow> (string \<times> string) list \<Rightarrow> ('b, 'h, 'cb) ZeroMQRouter
     \<Rightarrow> ('b, 'h, 'cb) ZeroMQRouter" where
  "kill_bindings queue [] s = s"
| "kill_bindings queue ((ex, binding) # rest) s =
     kill_bindings queue rest
       (case exchanges s ex of
          Some tr \<Rightarrow> s\<lparr>exchanges := (exchanges s)(ex \<mapsto> remove_topic_tree binding queue tr)\<rparr>
        | None \<Rightarrow> s)"

definition delete_queue ::
  "string \<Rightarrow> ('b, 'h, 'cb) ZeroMQRouter \<Rightarrow> (error + unit) \<times> ('b, 'h, 'cb) ZeroMQRouter" where
  "delete_queue queue s =
     (if queues s queue \<noteq> None
      then (Inr (),
            kill_bindings queue (dd_get (bindings_by_queue s) queue)
              (s\<lparr>queues := (queues s)(queue := None),
                 bindings_by_queue := dd_touch (bindings_by_queue s) queue\<rparr>))
      else (Inr (), s))"

definition bind ::
  "string \<Rightarrow> string \<Rightarrow> string \<Rightarrow> ('b, 'h, 'cb) ZeroMQRouter
     \<Rightarrow> (error + unit) \<times> ('b, 'h, 'cb) ZeroMQRouter" where
  "bind exchange queue binding s =
     (case exchanges s exchange of
        None \<Rightarrow> (Inl (AssertionError ''exchange in self._exchanges''), s)
      | Some tr \<Rightarrow>
          (if queues s queue = None
           then (Inl (AssertionError ''queue in self._queues''), s)
           else (Inr (),
                 s\<lparr>exchanges := (exchanges s)(exchange \<mapsto> add_topic_tree binding queue tr),
                   bindings_by_queue := (bindings_by_queue s)(queue \<mapsto>
                     dd_get (bindings_by_queue s) queue @ [(exchange, binding)])\<rparr>)))"

text \<open>
  \<open>unbind\<close>: the loop pops the first recorded tuple equal to \<open>(exchange, binding)\<close>, which
  is \<open>remove1\<close>.
\<close>

definition unbind ::
  "string \<Rightarrow> string \<Rightarrow> string \<Rightarrow> ('b, 'h, 'cb) ZeroMQRouter
     \<Rightarrow> (error + unit) \<times> ('b, 'h, 'cb) ZeroMQRouter" where
  "unbind exchange queue binding s =
     (case exchanges s exchange of
        None \<Rightarrow> (Inl (AssertionError ''exchange in self._exchanges''), s)
      | Some tr \<Rightarrow>
          (if queues s queue = None
           then (Inl (AssertionError ''queue in self._queues''), s)
           else (Inr (),
                 s\<lparr>exchanges := (exchanges s)(exchange \<mapsto> remove_topic_tree binding queue tr),
                   bindings_by_queue := (bindings_by_queue s)(queue \<mapsto>
                     remove1 (exchange, binding) (dd_get (bindings_by_queue s) queue))\<rparr>)))"

section \<open>ZeroMQRouter: routing\<close>

text \<open>
  The loop of \<open>_route\<close> over the matched queue names: the assertion stops the loop at
  the first name that is not in \<open>_queues\<close>; the queues visited before it keep the message.
\<close>

fun deliver ::
  "string list \<Rightarrow> ('b, 'h) message \<Rightarrow> ('b, 'h, 'cb) ZeroMQRouter
     \<Rightarrow> (error + unit) \<times> ('b, 'h, 'cb) ZeroMQRouter" where
  "deliver [] m s = (Inr (), s)"
| "deliver (q # qs) m s =
     (case queues s q of
        None \<Rightarrow> (Inl (AssertionError ''q in self._queues''), s)
      | Some buf \<Rightarrow> deliver qs m (s\<lparr>queues := (queues s)(q \<mapsto> Queue_put buf (Message m))\<rparr>))"

text \<open>
  The order in which \<open>_route\<close> visits the match set. Python leaves the iteration order
  of a set open; the model visits the names in order of first occurrence.
\<close>

definition match_order :: "'p TopicTrie \<Rightarrow> string \<Rightarrow> 'p list" where
  "match_order tr topic_tree =
     remdups (Node_get_all_matches (root tr) (str_split CHR ''.'' topic_tree))"

definition route ::
  "string \<Rightarrow> string \<Rightarrow> 'b \<Rightarrow> 'h \<Rightarrow> ('b, 'h, 'cb) ZeroMQRouter
     \<Rightarrow> (error + unit) \<times> ('b, 'h, 'cb) ZeroMQRouter" where
  "route exchange routing_key body props s =
     (case exchanges s exchange of
        None \<Rightarrow> (Inl (AssertionError ''Unknown exchange''), s)
      | Some tr \<Rightarrow> deliver (match_order tr routing_key) (exchange, routing_key, body, props) s)"

text \<open>
  One turn of the loop of \<open>_run_gl_msgs\<close> on a received frame. The fourth component is
  what \<open>msgpack.unpackb(serprops)\<close> gives: the property map or an exception. Every
  exception of the turn is appended to \<open>errors\<close>.
\<close>

definition run_gl_msgs_step ::
  "string \<times> string \<times> 'b \<times> (error + 'h) \<Rightarrow> ('b, 'h, 'cb) ZeroMQRouter
     \<Rightarrow> ('b, 'h, 'cb) ZeroMQRouter" where
  "run_gl_msgs_step frame s =
     (case frame of (ex, rkey, body, unpacked) \<Rightarrow>
        (case unpacked of
           Inl e \<Rightarrow> s\<lparr>errors := errors s @ [e]\<rparr>
         | Inr props \<Rightarrow>
             (case route ex rkey body props s of
                (Inl e, s') \<Rightarrow> s'\<lparr>errors := errors s' @ [e]\<rparr>
              | (Inr u, s') \<Rightarrow> s')))"

section \<open>ZeroMQRouter: consumers and deliveries\<close>

text \<open>\<open>"%s" % n\<close> for a non-negative integer: its decimal digits.\<close>

definition digit_char :: "nat \<Rightarrow> char" where
  "digit_char d = ''0123456789'' ! d"

function str_nat :: "nat \<Rightarrow> string" where
  "str_nat n = (if n < 10 then [digit_char n]
                else str_nat (n div 10) @ [digit_char (n mod 10)])"
  by pat_completeness auto
termination
  by (relation "measure id") auto

declare str_nat.simps [simp del]

text \<open>
  \<open>int(s)\<close> on a string of decimal digits; \<open>None\<close> stands for the \<open>ValueError\<close> of any
  other string (consumer tags end in digits, signs and blanks do not occur there).
\<close>

fun parse_digits :: "nat \<Rightarrow> string \<Rightarrow> nat option" where
  "parse_digits acc [] = Some acc"
| "parse_digits acc (c # cs) =
     (if c \<in> set ''0123456789''
      then parse_digits (10 * acc + (of_char c - 48)) cs
      else None)"

definition int_of_str :: "string \<Rightarrow> nat option" where
  "int_of_str s = (if s = [] then None else parse_digits 0 s)"

definition generate_ctag ::
  "('b, 'h, 'cb) ZeroMQRouter \<Rightarrow> string \<times> ('b, 'h, 'cb) ZeroMQRouter" where
  "generate_ctag s =
     (case get_id (ctag_pool s) of (i, p) \<Rightarrow> (''zctag-'' @ str_nat i, s\<lparr>ctag_pool := p\<rparr>))"

definition return_ctag ::
  "string \<Rightarrow> ('b, 'h, 'cb) ZeroMQRouter \<Rightarrow> (error + unit) \<times> ('b, 'h, 'cb) ZeroMQRouter" where
  "return_ctag ctag s =
     (case int_of_str (last (str_split CHR ''-'' ctag)) of
        None \<Rightarrow> (Inl (ValueError ''int''), s)
      | Some i \<Rightarrow> (Inr (), s\<lparr>ctag_pool := release_id i (ctag_pool s)\<rparr>))"

definition generate_dtag :: "string \<Rightarrow> nat \<Rightarrow> string" where
  "generate_dtag ctag cnt = ctag @ ''-'' @ str_nat cnt"

text \<open>
  \<open>start_consume\<close>. The worker is spawned with the tag, the queue and the callback;
  \<open>no_ack\<close> and \<open>exclusive\<close> are stored in the consumer tuple and passed nowhere.
\<close>

definition start_consume ::
  "'cb \<Rightarrow> string \<Rightarrow> bool \<Rightarrow> bool \<Rightarrow> ('b, 'h, 'cb) ZeroMQRouter
     \<Rightarrow> (error + string) \<times> ('b, 'h, 'cb) ZeroMQRouter" where
  "start_consume callback queue no_ack exclusive s =
     (if queues s queue = None then (Inl (AssertionError ''queue in self._queues''), s)
      else (case generate_ctag s of (new_ctag, s1) \<Rightarrow>
        (if consumers_by_ctag s1 new_ctag \<noteq> None
         then (Inl (AssertionError ''new_ctag not in self._consumers_by_ctag''), s1)
         else (Inr new_ctag,
               s1\<lparr>consumers := (consumers s1)(queue \<mapsto>
                      dd_get (consumers s1) queue
                      @ [(new_ctag, callback, no_ack, exclusive,
                          Spawn_run_consumer new_ctag queue callback)]),
                  consumers_by_ctag := (consumers_by_ctag s1)(new_ctag \<mapsto> queue)\<rparr>))))"

text \<open>The first consumer tuple with the given tag is popped from the list.\<close>

fun pop_consumer :: "string \<Rightarrow> 'cb consumer list \<Rightarrow> 'cb consumer list" where
  "pop_consumer ctag [] = []"
| "pop_consumer ctag (c # cs) = (if fst c = ctag then cs else c # pop_consumer ctag cs)"

text \<open>
  \<open>stop_consume\<close>. The close message is put on the queue found under the consumer's
  queue name (\<open>KeyError\<close> when the queue was deleted); joining and killing the worker
  changes no field of the router. The worker's taking of the close message is a step
  of the worker (\<open>Queue_get\<close>).
\<close>

definition stop_consume ::
  "string \<Rightarrow> ('b, 'h, 'cb) ZeroMQRouter \<Rightarrow> (error + unit) \<times> ('b, 'h, 'cb) ZeroMQRouter" where
  "stop_consume consumer_tag s =
     (case consumers_by_ctag s consumer_tag of
        None \<Rightarrow> (Inl (AssertionError ''consumer_tag in self._consumers_by_ctag''), s)
      | Some queue \<Rightarrow>
          (let s1 = s\<lparr>consumers_by_ctag := (consumers_by_ctag s)(consumer_tag := None),
                      consumers := dd_touch (consumers s) queue\<rparr>
           in if list_ex (\<lambda>c. fst c = consumer_tag) (dd_get (consumers s) queue)
              then (case queues s1 queue of
                      None \<Rightarrow> (Inl (KeyError queue), s1)
                    | Some buf \<Rightarrow>
                        return_ctag consumer_tag
                          (s1\<lparr>queues := (queues s1)(queue \<mapsto> Queue_put buf ConsumerClosedMessage),
                              consumers := (consumers s1)(queue \<mapsto>
                                pop_consumer consumer_tag (dd_get (consumers s) queue))\<rparr>))
              else return_ctag consumer_tag s1))"

text \<open>\<open>gqueue.get()\<close>: the head of the buffer; \<open>None\<close> while the call blocks.\<close>

definition Queue_get :: "('b, 'h) Queue \<Rightarrow> (('b, 'h) qitem \<times> ('b, 'h) Queue) option" where
  "Queue_get q = (case q of [] \<Rightarrow> None | x # rest \<Rightarrow> Some (x, rest))"

record method_frame =
  mf_consumer_tag :: string
  mf_redelivered :: bool
  mf_exchange :: string
  mf_routing_key :: string
  mf_delivery_tag :: string

text \<open>
  One turn of the loop of \<open>_run_consumer(ctag, queue_name, gqueue, callback)\<close> on the
  item \<open>m\<close> that \<open>gqueue.get()\<close> returned, with the counter \<open>cnt\<close>: \<open>None\<close> when the item
  is the close message and the loop ends; otherwise the method frame, header frame and
  body handed to the callback, the new counter and the router with the delivery
  recorded in \<open>_unacked\<close>. An exception of the callback is logged and dropped. The
  function has no \<open>no_ack\<close> argument, as the source has none.
\<close>

definition run_consumer_iter ::
  "string \<Rightarrow> string \<Rightarrow> nat \<Rightarrow> ('b, 'h) qitem \<Rightarrow> ('b, 'h, 'cb) ZeroMQRouter
     \<Rightarrow> ((method_frame \<times> 'h \<times> 'b) \<times> nat \<times> ('b, 'h, 'cb) ZeroMQRouter) option" where
  "run_consumer_iter ctag queue_name cnt m s =
     (case m of
        ConsumerClosedMessage \<Rightarrow> None
      | Message msg \<Rightarrow>
          (case msg of (exchange, routing_key, body, props) \<Rightarrow>
             Some ((\<lparr>mf_consumer_tag = ctag, mf_redelivered = False,
                      mf_exchange = exchange, mf_routing_key = routing_key,
                      mf_delivery_tag = generate_dtag ctag cnt\<rparr>, props, body),
                   Suc cnt,
                   s\<lparr>unacked := (unacked s)(generate_dtag ctag cnt \<mapsto> (ctag, queue_name, msg))\<rparr>)))"

definition ack ::
  "string \<Rightarrow> ('b, 'h, 'cb) ZeroMQRouter \<Rightarrow> (error + unit) \<times> ('b, 'h, 'cb) ZeroMQRouter" where
  "ack delivery_tag s =
     (if unacked s delivery_tag = None
      then (Inl (AssertionError ''delivery_tag in self._unacked''), s)
      else (Inr (), s\<lparr>unacked := (unacked s)(delivery_tag := None)\<rparr>))"

text \<open>
  \<open>reject\<close>: the entry is popped first; with \<open>requeue\<close> the queue is then looked up by
  the recorded name and \<open>append\<close> is called on it.
\<close>

definition reject ::
  "string \<Rightarrow> bool \<Rightarrow> ('b, 'h, 'cb) ZeroMQRouter
     \<Rightarrow> (error + unit) \<times> ('b, 'h, 'cb) ZeroMQRouter" where
  "reject delivery_tag requeue s =
     (case unacked s delivery_tag of
        None \<Rightarrow> (Inl (AssertionError ''delivery_tag in self._unacked''), s)
      | Some (ctag, queue, m) \<Rightarrow>
          (let s1 = s\<lparr>unacked := (unacked s)(delivery_tag := None)\<rparr>
           in if requeue
              then (case queues s1 queue of
                      None \<Rightarrow> (Inl (KeyError queue), s1)
                    | Some buf \<Rightarrow>
                        (case Queue_append buf (Message m) of
                           Inl e \<Rightarrow> (Inl e, s1)
                         | Inr buf' \<Rightarrow> (Inr (), s1\<lparr>queues := (queues s1)(queue \<mapsto> buf')\<rparr>)))
              else (Inr (), s1)))"

section \<open>Example states\<close>

text \<open>
  A router with one declared queue and one delivery waiting for its acknowledgement,
  as after the consumer \<open>zctag-1\<close> of \<open>q1\<close> was handed its first message.
\<close>

definition router_one_unacked :: "(string, (string \<times> string) list, string) ZeroMQRouter" where
  "router_one_unacked =
     ZeroMQRouter_init\<lparr>queues := [''q1'' \<mapsto> []],
       unacked := [''zctag-1-0'' \<mapsto> (''zctag-1'', ''q1'', (''ex1'', ''a.b.c'', ''hello'', []))]\<rparr>"

text \<open>
  Two sets of exchange attributes that differ in \<open>durable\<close>, and the router as
  \<open>__init__\<close> leaves it.
\<close>

definition kwargs_a :: kwargs where
  "kwargs_a = [(''exchange_type'', ''topic''), (''durable'', ''False''), (''auto_delete'', ''True'')]"

definition kwargs_b :: kwargs where
  "kwargs_b = [(''exchange_type'', ''topic''), (''durable'', ''True''), (''auto_delete'', ''True'')]"

definition router_empty :: "(string, (string \<times> string) list, string) ZeroMQRouter" where
  "router_empty = ZeroMQRouter_init"

text \<open>
  A router with the queue \<open>q1\<close>; the same after \<open>start_consume\<close> on \<open>q1\<close> with
  \<open>no_ack=True\<close>; and that one after the worker of the new consumer has handled its
  first message.
\<close>

definition router_q1 :: "(string, (string \<times> string) list, string) ZeroMQRouter" where
  "router_q1 = ZeroMQRouter_init\<lparr>queues := [''q1'' \<mapsto> []]\<rparr>"

definition router_no_ack_started :: "(string, (string \<times> string) list, string) ZeroMQRouter" where
  "router_no_ack_started = snd (start_consume ''cb'' ''q1'' True False router_q1)"

definition router_no_ack_delivered :: "(string, (string \<times> string) list, string) ZeroMQRouter" where
  "router_no_ack_delivered =
     snd (snd (the (run_consumer_iter ''zctag-1'' ''q1'' 0
                      (Message (''ex1'', ''a.b.c'', ''hello'', [])) router_no_ack_started)))"

section \<open>Names of minted queues\<close>

text \<open>
  \<open>str(uuid4())\<close> is the library's text form of a UUID: 32 lower-case hexadecimal
  digits in groups of 8, 4, 4, 4 and 12, joined by hyphens.
\<close>

definition is_hex :: "char \<Rightarrow> bool" where
  "is_hex c = (c \<in> set ''0123456789abcdef'')"

definition uuid_form :: "string \<Rightarrow> bool" where
  "uuid_form u =
     (length u = 36
      \<and> list_all is_hex (take 8 u) \<and> u ! 8 = CHR ''-''
      \<and> list_all is_hex (take 4 (drop 9 u)) \<and> u ! 13 = CHR ''-''
      \<and> list_all is_hex (take 4 (drop 14 u)) \<and> u ! 18 = CHR ''-''
      \<and> list_all is_hex (take 4 (drop 19 u)) \<and> u ! 23 = CHR ''-''
      \<and> list_all is_hex (drop 24 u))"

text \<open>
  The word of the specification for the characters after \<open>q-\<close>: a letter or a digit.
\<close>

definition alphanumeric :: "char \<Rightarrow> bool" where
  "alphanumeric c =
     (c \<in> set ''abcdefghijklmnopqrstuvwxyzABCDEFGHIJKLMNOPQRSTUVWXYZ0123456789'')"

text \<open>
  Two sources of UUID strings, one constant and one whose first string differs from the
  later ones, and a router in which the name minted from that first string is taken.
\<close>

definition uuid_fixed :: "nat \<Rightarrow> string" where
  "uuid_fixed i = ''12345678-1234-4234-8234-123456789abc''"

definition uuid_two :: "nat \<Rightarrow> string" where
  "uuid_two i = (if i = 0 then ''aaaaaaaa-aaaa-4aaa-8aaa-aaaaaaaaaaaa''
                 else ''12345678-1234-4234-8234-123456789abc'')"

definition router_name_taken :: "(string, (string \<times> string) list, string) ZeroMQRouter" where
  "router_name_taken = ZeroMQRouter_init\<lparr>queues := [''q-aaaaaaaa-a'' \<mapsto> []]\<rparr>"

section \<open>Recorded bindings and reachable router states\<close>

text \<open>
  The patterns bound at the node that a list of tokens leads to from a node; the empty
  list when the path does not exist.
\<close>

fun stored :: "'p node \<Rightarrow> string list \<Rightarrow> 'p list" where
  "stored n [] = patterns n"
| "stored n (t # ts) = (case map_of (children n) t of Some c \<Rightarrow> stored c ts | None \<Rightarrow> [])"

text \<open>The queue names bound in an exchange at a path of tokens.\<close>

definition bound_at :: "('b, 'h, 'cb) ZeroMQRouter \<Rightarrow> string \<Rightarrow> string list \<Rightarrow> string list" where
  "bound_at s ex path =
     (case exchanges s ex of Some tr \<Rightarrow> stored (root tr) path | None \<Rightarrow> [])"

text \<open>
  The link between the two indexes of a binding: every queue name bound in the trie of
  an exchange occurs once at its node, is the name of a declared queue, and has the
  exchange with a binding key for that path in \<open>_bindings_by_queue\<close>.
\<close>

definition bindings_recorded :: "('b, 'h, 'cb) ZeroMQRouter \<Rightarrow> bool" where
  "bindings_recorded s =
     (\<forall>ex path. distinct (bound_at s ex path)
        \<and> (\<forall>q\<in>set (bound_at s ex path).
              queues s q \<noteq> None
              \<and> (\<exists>k. (ex, k) \<in> set (dd_get (bindings_by_queue s) q)
                     \<and> str_split CHR ''.'' k = path)))"

text \<open>
  The states the router gets into from \<open>__init__\<close> by calls of its methods, by turns
  of the ingress loop, and by the steps of consumer workers: taking the head of a queue
  and handling an item (for any tag, queue name and counter).
\<close>

inductive reachable :: "('b, 'h, 'cb) ZeroMQRouter \<Rightarrow> bool" where
  init: "reachable ZeroMQRouter_init"
| declare_exchange: "reachable s \<Longrightarrow> reachable (snd (declare_exchange ex kw s))"
| delete_exchange: "reachable s \<Longrightarrow> reachable (snd (delete_exchange ex s))"
| declare_queue: "reachable s \<Longrightarrow> declare_queue q uuid4 s = Some (r, s') \<Longrightarrow> reachable s'"
| delete_queue: "reachable s \<Longrightarrow> reachable (snd (delete_queue q s))"
| bind: "reachable s \<Longrightarrow> reachable (snd (bind ex q k s))"
| unbind: "reachable s \<Longrightarrow> reachable (snd (unbind ex q k s))"
| run_gl_msgs: "reachable s \<Longrightarrow> reachable (run_gl_msgs_step frame s)"
| start_consume: "reachable s \<Longrightarrow> reachable (snd (start_consume cb q no_ack excl s))"
| stop_consume: "reachable s \<Longrightarrow> reachable (snd (stop_consume ctag s))"
| consumer_get: "reachable s \<Longrightarrow> queues s q = Some buf \<Longrightarrow> Queue_get buf = Some (x, rest)
     \<Longrightarrow> reachable (s\<lparr>queues := (queues s)(q \<mapsto> rest)\<rparr>)"
| consumer_iter: "reachable s \<Longrightarrow> run_consumer_iter ctag qn cnt m s = Some (d, cnt', s')
     \<Longrightarrow> reachable s'"
| ack: "reachable s \<Longrightarrow> reachable (snd (ack t s))"
| reject: "reachable s \<Longrightarrow> reachable (snd (reject t requeue s))"

text \<open>
  The router after \<open>declare_exchange('ex1')\<close>, \<open>declare_queue('q1')\<close> and
  \<open>bind('ex1', 'q1', 'a.#')\<close>.
\<close>

definition router_q1_bound :: "(string, (string \<times> string) list, string) ZeroMQRouter" where
  "router_q1_bound =
     snd (bind ''ex1'' ''q1'' ''a.#''
       (snd (the (declare_queue (Some ''q1'') uuid_fixed
         (snd (declare_exchange ''ex1'' kwargs_a router_empty))))))"

section \<open>Wildcard matching scenarios\<close>

text \<open>
  C1. A trie holding only the binding key \<open>#.c\<close> for pattern \<open>P\<close>, asked for the
  routing keys \<open>c\<close>, \<open>a.c\<close>, \<open>a.b.c\<close> and \<open>c.a\<close>. The source returns \<open>P\<close> for
  \<open>a.c\<close> and \<open>a.b.c\<close> and not for \<open>c.a\<close>, as the scenario says, but it returns the empty
  set for \<open>c\<close>: the \<open>#\<close> branch of \<open>Node.get_all_matches\<close> always consumes the current
  token, so \<open>#\<close> never stands for zero tokens.
\<close>

theorem hash_c_binding_matches:
  "get_all_matches (add_topic_tree ''#.c'' P TopicTrie_init) ''c'' = {}
   \<and> get_all_matches (add_topic_tree ''#.c'' P TopicTrie_init) ''a.c'' = {P}
   \<and> get_all_matches (add_topic_tree ''#.c'' P TopicTrie_init) ''a.b.c'' = {P}
   \<and> get_all_matches (add_topic_tree ''#.c'' P TopicTrie_init) ''c.a'' = {}"
  by (simp add: get_all_matches_def add_topic_tree_def TopicTrie_init_def set_child_def
      get_or_create_child_def new_node_def upt_rec)

text \<open>
  C2. A trie holding only the binding key \<open>a.#\<close> for pattern \<open>P\<close>, asked for the
  routing keys \<open>a\<close>, \<open>a.b\<close>, \<open>a.b.c.d.e\<close> and \<open>b.a\<close>. The source returns \<open>P\<close> for
  \<open>a.b\<close> and \<open>a.b.c.d.e\<close> and not for \<open>b.a\<close>, but it returns the empty set for \<open>a\<close>:
  with no token left, \<open>Node.get_all_matches\<close> returns the node's own patterns before it
  looks at a \<open>#\<close> child, so the empty suffix is not matched.
\<close>

theorem a_hash_binding_matches:
  "get_all_matches (add_topic_tree ''a.#'' P TopicTrie_init) ''a'' = {}
   \<and> get_all_matches (add_topic_tree ''a.#'' P TopicTrie_init) ''a.b'' = {P}
   \<and> get_all_matches (add_topic_tree ''a.#'' P TopicTrie_init) ''a.b.c.d.e'' = {P}
   \<and> get_all_matches (add_topic_tree ''a.#'' P TopicTrie_init) ''b.a'' = {}"
  by (simp add: get_all_matches_def add_topic_tree_def TopicTrie_init_def set_child_def
      get_or_create_child_def new_node_def upt_rec)

section \<open>Acknowledge and reject\<close>

text \<open>
  C9. For a delivery tag that is in the unacked table, \<open>ack\<close> succeeds and removes the
  tag; a second \<open>ack\<close> of the same tag right after fails and leaves the router as it
  is. The failure is the assertion \<open>delivery_tag in self._unacked\<close>, the source's form
  of the unknown-entity error for a delivery tag.
\<close>

theorem ack_then_ack_again:
  "unacked s t \<noteq> None \<Longrightarrow>
     ack t s = (Inr (), s\<lparr>unacked := (unacked s)(t := None)\<rparr>)
     \<and> unacked (snd (ack t s)) t = None
     \<and> ack t (snd (ack t s))
         = (Inl (AssertionError ''delivery_tag in self._unacked''), snd (ack t s))"
  by (simp add: ack_def)

theorem ack_then_ack_again_witness:
  "unacked router_one_unacked ''zctag-1-0'' \<noteq> None
   \<and> ack ''zctag-1-0'' router_one_unacked
       = (Inr (), router_one_unacked\<lparr>unacked := (unacked router_one_unacked)(''zctag-1-0'' := None)\<rparr>)
   \<and> unacked (snd (ack ''zctag-1-0'' router_one_unacked)) ''zctag-1-0'' = None
   \<and> ack ''zctag-1-0'' (snd (ack ''zctag-1-0'' router_one_unacked))
       = (Inl (AssertionError ''delivery_tag in self._unacked''),
          snd (ack ''zctag-1-0'' router_one_unacked))"
proof -
  have h: "unacked router_one_unacked ''zctag-1-0'' \<noteq> None"
    by (simp add: router_one_unacked_def)
  from ack_then_ack_again [OF h] h show ?thesis by blast
qed

text \<open>
  C4. \<open>reject\<close> with \<open>requeue\<close> on a delivery tag of the unacked table. The source
  removes the tag and then fails: with \<open>KeyError\<close> when the queue of the delivery is no
  longer declared, and otherwise with \<open>AttributeError\<close>, because it calls \<open>append\<close> on
  a \<open>gevent\<close> queue where \<open>_route\<close> and \<open>stop_consume\<close> call \<open>put\<close>. No buffer
  changes, so the message is in neither the table nor the queue afterwards.
\<close>

theorem reject_requeue_raises:
  "unacked s t = Some (c, q, m) \<Longrightarrow>
     reject t True s
       = (Inl (if queues s q = None then KeyError q else AttributeError ''append''),
          s\<lparr>unacked := (unacked s)(t := None)\<rparr>)"
  by (simp add: reject_def Queue_append_def Let_def split: option.splits)

theorem reject_requeue_raises_witness:
  "unacked router_one_unacked ''zctag-1-0''
     = Some (''zctag-1'', ''q1'', (''ex1'', ''a.b.c'', ''hello'', []))
   \<and> queues router_one_unacked ''q1'' = Some []
   \<and> reject ''zctag-1-0'' True router_one_unacked
      = (Inl (AttributeError ''append''),
         router_one_unacked\<lparr>unacked := (unacked router_one_unacked)(''zctag-1-0'' := None)\<rparr>)"
proof -
  have h: "unacked router_one_unacked ''zctag-1-0''
     = Some (''zctag-1'', ''q1'', (''ex1'', ''a.b.c'', ''hello'', []))"
    by (simp add: router_one_unacked_def)
  have q: "queues router_one_unacked ''q1'' = Some []"
    by (simp add: router_one_unacked_def)
  from reject_requeue_raises [OF h] h q show ?thesis by simp
qed

section \<open>Deleting what is not declared\<close>

text \<open>
  C10. \<open>delete_exchange\<close> of a name that is not in \<open>_exchanges\<close> and \<open>delete_queue\<close> of a
  name that is not in \<open>_queues\<close> return without an error and leave the whole router
  state as it is.
\<close>

theorem delete_absent_is_noop:
  "(exchanges s ex = None \<longrightarrow> delete_exchange ex s = (Inr (), s))
   \<and> (queues s q = None \<longrightarrow> delete_queue q s = (Inr (), s))"
  by (simp add: delete_exchange_def delete_queue_def)

theorem delete_absent_is_noop_witness:
  "exchanges router_one_unacked ''ex1'' = None
   \<and> delete_exchange ''ex1'' router_one_unacked = (Inr (), router_one_unacked)
   \<and> queues router_one_unacked ''q2'' = None
   \<and> delete_queue ''q2'' router_one_unacked = (Inr (), router_one_unacked)"
proof -
  have h1: "exchanges router_one_unacked ''ex1'' = None"
    by (simp add: router_one_unacked_def ZeroMQRouter_init_def)
  have h2: "queues router_one_unacked ''q2'' = None"
    by (simp add: router_one_unacked_def ZeroMQRouter_init_def)
  from delete_absent_is_noop [of router_one_unacked "''ex1''" "''q2''"] h1 h2
  show ?thesis by blast
qed

section \<open>Routing\<close>





section \<open>Declaring an exchange twice\<close>

text \<open>
  C5 as the claim states it fails: on the \<open>ZeroMQRouter\<close> a second \<open>declare_exchange\<close>
  with different attributes succeeds, and on the \<open>LocalBroker\<close> the first declaration
  with a type other than \<open>topic\<close> already fails.
\<close>

theorem declare_exchange_differing_counterexample:
  "kwargs_a \<noteq> kwargs_b
   \<and> fst (declare_exchange ''ex1'' kwargs_b (snd (declare_exchange ''ex1'' kwargs_a router_empty)))
       = Inr ()
   \<and> fst (LocalBroker_declare_exchange ''ex1'' ''direct'' False True LocalBroker_init)
       = Inl (AssertionError ''Topic only supported'')"
  by (simp add: kwargs_a_def kwargs_b_def declare_exchange_def LocalBroker_declare_exchange_def
      LocalBroker_init_def)

text \<open>
  C5, amended. \<open>ZeroMQRouter.declare_exchange\<close> ignores the attributes: it always
  succeeds, and a second call with the same or other attributes succeeds and leaves the
  router, with its one exchange of that name, unchanged. On the \<open>LocalBroker\<close>, when a
  declaration succeeds, the same declaration again succeeds and leaves the broker, with
  its one record of that name, unchanged, and a declaration that differs in type,
  durable or auto_delete fails and changes nothing; a first declaration of an absent
  name succeeds exactly when the type is \<open>topic\<close>.
\<close>

theorem declare_exchange_twice:
  "fst (declare_exchange ex kw s) = Inr ()
   \<and> declare_exchange ex kw' (snd (declare_exchange ex kw s))
       = (Inr (), snd (declare_exchange ex kw s))
   \<and> exchanges (snd (declare_exchange ex kw s)) ex \<noteq> None
   \<and> (fst (LocalBroker_declare_exchange ex ty d ad b) = Inr True \<longrightarrow>
        LocalBroker_declare_exchange ex ty d ad (snd (LocalBroker_declare_exchange ex ty d ad b))
          = (Inr True, snd (LocalBroker_declare_exchange ex ty d ad b))
        \<and> lb_exchanges (snd (LocalBroker_declare_exchange ex ty d ad b)) ex \<noteq> None
        \<and> ((ty', d', ad') \<noteq> (ty, d, ad) \<longrightarrow>
             LocalBroker_declare_exchange ex ty' d' ad'
                 (snd (LocalBroker_declare_exchange ex ty d ad b))
               = (Inl (AssertionError ''exchange attributes''),
                  snd (LocalBroker_declare_exchange ex ty d ad b))))
   \<and> (lb_exchanges b ex = None \<longrightarrow>
        (fst (LocalBroker_declare_exchange ex ty d ad b) = Inr True) = (ty = ''topic''))"
  by (auto simp: declare_exchange_def LocalBroker_declare_exchange_def
      split: option.splits if_splits)

theorem declare_exchange_twice_witness:
  "fst (LocalBroker_declare_exchange ''ex1'' ''topic'' False True LocalBroker_init) = Inr True
   \<and> (''topic'', True, True) \<noteq> (''topic'', False, True)
   \<and> lb_exchanges LocalBroker_init ''ex1'' = None
   \<and> fst (declare_exchange ''ex1'' kwargs_a router_empty) = Inr ()
   \<and> declare_exchange ''ex1'' kwargs_b (snd (declare_exchange ''ex1'' kwargs_a router_empty))
       = (Inr (), snd (declare_exchange ''ex1'' kwargs_a router_empty))
   \<and> LocalBroker_declare_exchange ''ex1'' ''topic'' False True
        (snd (LocalBroker_declare_exchange ''ex1'' ''topic'' False True LocalBroker_init))
       = (Inr True, snd (LocalBroker_declare_exchange ''ex1'' ''topic'' False True LocalBroker_init))
   \<and> LocalBroker_declare_exchange ''ex1'' ''topic'' True True
        (snd (LocalBroker_declare_exchange ''ex1'' ''topic'' False True LocalBroker_init))
       = (Inl (AssertionError ''exchange attributes''),
          snd (LocalBroker_declare_exchange ''ex1'' ''topic'' False True LocalBroker_init))"
proof -
  have h1: "fst (LocalBroker_declare_exchange ''ex1'' ''topic'' False True LocalBroker_init)
      = Inr True"
    by (simp add: LocalBroker_declare_exchange_def LocalBroker_init_def)
  have h2: "(''topic'', True, True) \<noteq> (''topic'', False, True)" by simp
  have h3: "lb_exchanges LocalBroker_init ''ex1'' = None"
    by (simp add: LocalBroker_init_def)
  from declare_exchange_twice [of "''ex1''" kwargs_a router_empty kwargs_b
      "''topic''" False True LocalBroker_init "''topic''" True True] h1 h2 h3
  show ?thesis by blast
qed

section \<open>Consumers and the unacked table\<close>

lemma str_nat_0: "str_nat 0 = ''0''"
  by (simp add: str_nat.simps digit_char_def)

lemma str_nat_1: "str_nat (Suc 0) = ''1''"
  by (simp add: str_nat.simps digit_char_def)

text \<open>
  C6 as the claim states it fails: the worker of a consumer started with \<open>no_ack=True\<close>
  records its delivery in \<open>_unacked\<close>, and \<open>ack\<close> and \<open>reject\<close> of that delivery tag
  succeed.
\<close>

theorem no_ack_consumer_counterexample:
  "start_consume ''cb'' ''q1'' True False router_q1 = (Inr ''zctag-1'', router_no_ack_started)
   \<and> unacked router_no_ack_started = Map.empty
   \<and> unacked router_no_ack_delivered ''zctag-1-0''
       = Some (''zctag-1'', ''q1'', (''ex1'', ''a.b.c'', ''hello'', []))
   \<and> fst (ack ''zctag-1-0'' router_no_ack_delivered) = Inr ()
   \<and> fst (reject ''zctag-1-0'' False router_no_ack_delivered) = Inr ()"
  by (simp add: router_no_ack_delivered_def router_no_ack_started_def router_q1_def
      ZeroMQRouter_init_def IDPool_init_def start_consume_def generate_ctag_def get_id_def
      run_consumer_iter_def generate_dtag_def ack_def reject_def str_nat_0 str_nat_1 dd_get_def)

text \<open>
  C6, amended. For every consumer that \<open>start_consume\<close> registers, with \<open>no_ack\<close> true
  or false, the worker is spawned with the tag, the queue name and the callback only,
  and each message it hands to the callback is first recorded in the unacked table
  under its delivery tag \<open>ctag-cnt\<close>, so that an \<open>ack\<close> or a \<open>reject\<close> without requeue
  of that tag then succeeds.
\<close>

theorem consumer_records_every_delivery:
  assumes "start_consume cb q no_ack excl s = (Inr ctag, s1)"
  shows "(ctag, cb, no_ack, excl, Spawn_run_consumer ctag q cb) \<in> set (dd_get (consumers s1) q)
     \<and> run_consumer_iter ctag q cnt (Message (ex, rk, body, props)) s2
         = Some ((\<lparr>mf_consumer_tag = ctag, mf_redelivered = False, mf_exchange = ex,
                   mf_routing_key = rk, mf_delivery_tag = generate_dtag ctag cnt\<rparr>, props, body),
                 Suc cnt,
                 s2\<lparr>unacked := (unacked s2)(generate_dtag ctag cnt \<mapsto> (ctag, q, (ex, rk, body, props)))\<rparr>)
     \<and> fst (ack (generate_dtag ctag cnt)
              (s2\<lparr>unacked := (unacked s2)(generate_dtag ctag cnt \<mapsto> (ctag, q, (ex, rk, body, props)))\<rparr>))
         = Inr ()
     \<and> fst (reject (generate_dtag ctag cnt) False
              (s2\<lparr>unacked := (unacked s2)(generate_dtag ctag cnt \<mapsto> (ctag, q, (ex, rk, body, props)))\<rparr>))
         = Inr ()"
  using assms
  by (auto simp: start_consume_def run_consumer_iter_def ack_def reject_def dd_get_def
      split: if_splits prod.splits option.splits)

theorem consumer_records_every_delivery_witness:
  "start_consume ''cb'' ''q1'' True False router_q1 = (Inr ''zctag-1'', router_no_ack_started)
   \<and> (''zctag-1'', ''cb'', True, False, Spawn_run_consumer ''zctag-1'' ''q1'' ''cb'')
        \<in> set (dd_get (consumers router_no_ack_started) ''q1'')
   \<and> run_consumer_iter ''zctag-1'' ''q1'' 0 (Message (''ex1'', ''a.b.c'', ''hello'', []))
        router_no_ack_started
       = Some ((\<lparr>mf_consumer_tag = ''zctag-1'', mf_redelivered = False, mf_exchange = ''ex1'',
                 mf_routing_key = ''a.b.c'', mf_delivery_tag = generate_dtag ''zctag-1'' 0\<rparr>,
                [], ''hello''),
               Suc 0,
               router_no_ack_started\<lparr>unacked := (unacked router_no_ack_started)
                 (generate_dtag ''zctag-1'' 0 \<mapsto> (''zctag-1'', ''q1'', (''ex1'', ''a.b.c'', ''hello'', [])))\<rparr>)
   \<and> fst (ack (generate_dtag ''zctag-1'' 0)
            (router_no_ack_started\<lparr>unacked := (unacked router_no_ack_started)
                 (generate_dtag ''zctag-1'' 0 \<mapsto> (''zctag-1'', ''q1'', (''ex1'', ''a.b.c'', ''hello'', [])))\<rparr>))
       = Inr ()"
proof -
  have h: "start_consume ''cb'' ''q1'' True False router_q1
      = (Inr ''zctag-1'', router_no_ack_started)"
    by (simp add: router_no_ack_started_def router_q1_def ZeroMQRouter_init_def IDPool_init_def
        start_consume_def generate_ctag_def get_id_def str_nat_1)
  from consumer_records_every_delivery [OF h, of 0 "''ex1''" "''a.b.c''" "''hello''" "[]"
      router_no_ack_started] h
  show ?thesis by blast
qed

section \<open>Minting a queue name\<close>

text \<open>
  C8 as the claim states it fails: the name minted for an unnamed queue is \<open>q-\<close> and the
  first ten characters of the UUID string, and the ninth of them is the hyphen after
  the first group of digits, which is not alphanumeric.
\<close>

theorem minted_name_counterexample:
  "uuid_form (uuid_fixed 0)
   \<and> declare_queue None uuid_fixed router_empty
       = Some (Inr ''q-12345678-1'', router_empty\<lparr>queues := [''q-12345678-1'' \<mapsto> []]\<rparr>)
   \<and> \<not> list_all alphanumeric (drop 2 ''q-12345678-1'')"
  by (simp add: uuid_form_def is_hex_def uuid_fixed_def declare_queue_def
      mint_queue_name.simps router_empty_def ZeroMQRouter_init_def alphanumeric_def)

text \<open>
  The minting loop returns at the first proposed name that is free, whenever some
  proposed name is free.
\<close>

lemma mint_queue_name_finds:
  "qs (''q-'' @ take 10 (uuid4 (i + k))) = None \<Longrightarrow>
   \<exists>j\<le>k. mint_queue_name uuid4 i qs = Some (''q-'' @ take 10 (uuid4 (i + j)))
          \<and> qs (''q-'' @ take 10 (uuid4 (i + j))) = None
          \<and> (\<forall>l<j. qs (''q-'' @ take 10 (uuid4 (i + l))) \<noteq> None)"
proof (induction k arbitrary: i)
  case 0
  then have "mint_queue_name uuid4 i qs = Some (''q-'' @ take 10 (uuid4 i))"
    by (subst mint_queue_name.simps) simp
  with 0 show ?case by simp
next
  case (Suc k)
  show ?case
  proof (cases "qs (''q-'' @ take 10 (uuid4 i)) = None")
    case True
    then have "mint_queue_name uuid4 i qs = Some (''q-'' @ take 10 (uuid4 i))"
      by (subst mint_queue_name.simps) simp
    with True show ?thesis by (intro exI [of _ 0]) simp
  next
    case False
    have "mint_queue_name uuid4 i qs
        = (if qs (''q-'' @ take 10 (uuid4 i)) = None then Some (''q-'' @ take 10 (uuid4 i))
           else mint_queue_name uuid4 (Suc i) qs)"
      by (rule mint_queue_name.simps)
    with False have step: "mint_queue_name uuid4 i qs = mint_queue_name uuid4 (Suc i) qs"
      by (simp only: if_False)
    from Suc.prems have "qs (''q-'' @ take 10 (uuid4 (Suc i + k))) = None" by simp
    from Suc.IH [OF this] obtain j where j: "j \<le> k"
      "mint_queue_name uuid4 (Suc i) qs = Some (''q-'' @ take 10 (uuid4 (Suc i + j)))"
      "qs (''q-'' @ take 10 (uuid4 (Suc i + j))) = None"
      "\<forall>l<j. qs (''q-'' @ take 10 (uuid4 (Suc i + l))) \<noteq> None"
      by blast
    have "\<forall>l<Suc j. qs (''q-'' @ take 10 (uuid4 (i + l))) \<noteq> None"
    proof (intro allI impI)
      fix l assume "l < Suc j"
      show "qs (''q-'' @ take 10 (uuid4 (i + l))) \<noteq> None"
      proof (cases l)
        case 0
        with False show ?thesis by simp
      next
        case (Suc l')
        with \<open>l < Suc j\<close> j(4) show ?thesis by simp
      qed
    qed
    with j step show ?thesis by (intro exI [of _ "Suc j"]) simp
  qed
qed

lemma uuid_form_prefix:
  "uuid_form u \<Longrightarrow>
     length (take 10 u) = 10 \<and> list_all is_hex (take 8 u) \<and> u ! 8 = CHR ''-'' \<and> is_hex (u ! 9)"
proof -
  assume u: "uuid_form u"
  then have len: "length u = 36" and h: "list_all is_hex (take 4 (drop 9 u))"
    by (simp_all add: uuid_form_def)
  from len have eq: "u ! 9 # drop (Suc 9) u = drop 9 u"
    by (intro Cons_nth_drop_Suc) simp
  from h have "list_all is_hex (take 4 (u ! 9 # drop (Suc 9) u))"
    by (simp only: eq)
  then have "is_hex (u ! 9)"
    by (simp add: take_Cons')
  with u len show ?thesis by (simp add: uuid_form_def)
qed

text \<open>
  C8, amended. When \<open>declare_queue\<close> is called with no name or the empty name and the
  UUID source comes to a name that is free, it returns the first free proposed name,
  after retrying on each taken one; the name is not in the queue map before the call and
  is bound to an empty buffer after it, nothing else changes; its form is \<open>q-\<close>, eight
  hexadecimal digits, a hyphen and one hexadecimal digit.
\<close>

theorem declare_queue_mints_fresh:
  assumes "queue = None \<or> queue = Some []"
    and "queues s (''q-'' @ take 10 (uuid4 k)) = None"
    and "\<forall>i. uuid_form (uuid4 i)"
  shows "\<exists>j\<le>k. declare_queue queue uuid4 s
                 = Some (Inr (''q-'' @ take 10 (uuid4 j)),
                         s\<lparr>queues := (queues s)(''q-'' @ take 10 (uuid4 j) \<mapsto> [])\<rparr>)
          \<and> queues s (''q-'' @ take 10 (uuid4 j)) = None
          \<and> (\<forall>l<j. queues s (''q-'' @ take 10 (uuid4 l)) \<noteq> None)
          \<and> length (take 10 (uuid4 j)) = 10
          \<and> list_all is_hex (take 8 (uuid4 j))
          \<and> uuid4 j ! 8 = CHR ''-''
          \<and> is_hex (uuid4 j ! 9)"
proof -
  from assms(2) have "queues s (''q-'' @ take 10 (uuid4 (0 + k))) = None" by simp
  from mint_queue_name_finds [of "queues s" uuid4 0 k, OF this] obtain j where j: "j \<le> k"
    "mint_queue_name uuid4 0 (queues s) = Some (''q-'' @ take 10 (uuid4 j))"
    "queues s (''q-'' @ take 10 (uuid4 j)) = None"
    "\<forall>l<j. queues s (''q-'' @ take 10 (uuid4 l)) \<noteq> None"
    by auto
  from assms(1) j(2,3) have
    "declare_queue queue uuid4 s
       = Some (Inr (''q-'' @ take 10 (uuid4 j)),
               s\<lparr>queues := (queues s)(''q-'' @ take 10 (uuid4 j) \<mapsto> [])\<rparr>)"
    by (auto simp: declare_queue_def)
  moreover from assms(3) have "uuid_form (uuid4 j)" by simp
  note uuid_form_prefix [OF this]
  ultimately show ?thesis using j by blast
qed

theorem declare_queue_mints_fresh_witness:
  "queues router_name_taken (''q-'' @ take 10 (uuid_two 1)) = None
   \<and> (\<forall>i. uuid_form (uuid_two i))
   \<and> queues router_name_taken (''q-'' @ take 10 (uuid_two 0)) \<noteq> None
   \<and> declare_queue None uuid_two router_name_taken
       = Some (Inr ''q-12345678-1'',
               router_name_taken\<lparr>queues := (queues router_name_taken)(''q-12345678-1'' \<mapsto> [])\<rparr>)"
proof -
  have h1: "queues router_name_taken (''q-'' @ take 10 (uuid_two 1)) = None"
    by (simp add: router_name_taken_def uuid_two_def)
  have h2: "\<forall>i. uuid_form (uuid_two i)"
    by (simp add: uuid_two_def uuid_form_def is_hex_def)
  have h3: "queues router_name_taken (''q-'' @ take 10 (uuid_two 0)) \<noteq> None"
    by (simp add: router_name_taken_def uuid_two_def)
  from declare_queue_mints_fresh [of None, OF _ h1 h2] obtain j where j: "j \<le> 1"
    "declare_queue None uuid_two router_name_taken
       = Some (Inr (''q-'' @ take 10 (uuid_two j)),
               router_name_taken\<lparr>queues := (queues router_name_taken)
                  (''q-'' @ take 10 (uuid_two j) \<mapsto> [])\<rparr>)"
    "queues router_name_taken (''q-'' @ take 10 (uuid_two j)) = None"
    by auto
  have "j \<noteq> 0"
  proof
    assume "j = 0"
    with j(3) h3 show False by simp
  qed
  with j(1) have "j = 1" by simp
  with j(2) have "declare_queue None uuid_two router_name_taken
       = Some (Inr ''q-12345678-1'',
               router_name_taken\<lparr>queues := (queues router_name_taken)(''q-12345678-1'' \<mapsto> [])\<rparr>)"
    by (simp add: uuid_two_def)
  with h1 h2 h3 show ?thesis by blast
qed

section \<open>Deleting a queue removes its bindings\<close>

text \<open>
  What \<open>add_topic_tree\<close> and \<open>remove_topic_tree\<close> do to the patterns at each path, and
  that every match is a pattern stored at some path.
\<close>

lemma stored_new_node: "stored (new_node t) p = []"
  by (cases p) (simp_all add: new_node_def)

lemma patterns_set_child: "patterns (set_child t c n) = patterns n"
  by (simp add: set_child_def)

lemma stored_set_child_Cons:
  "stored (set_child t c n) (t' # p) = (if t' = t then stored c p else stored n (t' # p))"
  by (simp add: set_child_def update_conv')

lemma stored_get_or_create_child: "stored (get_or_create_child n t) p = stored n (t # p)"
  by (simp add: get_or_create_child_def stored_new_node split: option.splits)

lemma stored_add_tokens:
  "stored (add_tokens ts q n) p =
     (if p = ts then (if q \<in> set (stored n ts) then stored n ts else stored n ts @ [q])
      else stored n p)"
proof (induction ts arbitrary: n p)
  case Nil
  then show ?case by (cases p) simp_all
next
  case (Cons t ts)
  show ?case
  proof (cases p)
    case Nil
    then show ?thesis by (simp add: patterns_set_child)
  next
    case (Cons t' p')
    then show ?thesis
      by (simp add: stored_set_child_Cons Cons.IH stored_get_or_create_child
          del: stored.simps)
  qed
qed

lemma stored_remove_tokens:
  "stored (remove_tokens ts q n) p = (if p = ts then remove1 q (stored n ts) else stored n p)"
proof (induction ts arbitrary: n p)
  case Nil
  then show ?case by (cases p) (simp_all add: remove1_idem)
next
  case (Cons t ts)
  show ?case
  proof (cases p)
    case Nil
    then show ?thesis by (simp add: patterns_set_child)
  next
    case (Cons t' p')
    then show ?thesis
      by (simp add: stored_set_child_Cons Cons.IH stored_get_or_create_child
          del: stored.simps)
  qed
qed

lemma matches_are_stored:
  "x \<in> set (Node_get_all_matches n ts) \<Longrightarrow> \<exists>p. x \<in> set (stored n p)"
proof (induction n ts rule: Node_get_all_matches.induct)
  case (1 n)
  then have "x \<in> set (stored n [])" by simp
  then show ?case by blast
next
  case (2 n cur_token rem_tokens)
  from "2.prems" have
    "(\<exists>c. map_of (children n) cur_token = Some c
          \<and> x \<in> set (Node_get_all_matches c rem_tokens))
     \<or> (\<exists>c. map_of (children n) ''*'' = Some c
          \<and> x \<in> set (Node_get_all_matches c rem_tokens))
     \<or> (\<exists>h i. map_of (children n) ''#'' = Some h \<and> i < length rem_tokens
          \<and> x \<in> set (Node_get_all_matches h (drop i rem_tokens)))
     \<or> (\<exists>h. map_of (children n) ''#'' = Some h \<and> x \<in> set (patterns h))"
    by (auto split: option.splits)
  then consider
    (direct) c where "map_of (children n) cur_token = Some c"
      "x \<in> set (Node_get_all_matches c rem_tokens)"
  | (star) c where "map_of (children n) ''*'' = Some c"
      "x \<in> set (Node_get_all_matches c rem_tokens)"
  | (hash) h i where "map_of (children n) ''#'' = Some h" "i < length rem_tokens"
      "x \<in> set (Node_get_all_matches h (drop i rem_tokens))"
  | (own) h where "map_of (children n) ''#'' = Some h" "x \<in> set (patterns h)"
    by blast
  then show ?case
  proof cases
    case direct
    from "2.IH"(1) [OF direct] obtain p where "x \<in> set (stored c p)" by blast
    with direct(1) have "x \<in> set (stored n (cur_token # p))" by simp
    then show ?thesis by blast
  next
    case star
    from "2.IH"(2) [OF star] obtain p where "x \<in> set (stored c p)" by blast
    with star(1) have "x \<in> set (stored n (''*'' # p))" by simp
    then show ?thesis by blast
  next
    case hash
    from hash(2) have "i \<in> set [0..<length rem_tokens]" by simp
    from "2.IH"(3) [OF hash(1) this hash(3)] obtain p where "x \<in> set (stored h p)" by blast
    with hash(1) have "x \<in> set (stored n (''#'' # p))" by simp
    then show ?thesis by blast
  next
    case own
    then have "x \<in> set (stored n [''#''])" by simp
    then show ?thesis by blast
  qed
qed

text \<open>The methods of the router keep the two indexes of the bindings linked.\<close>

lemma stored_empty_root: "stored (root TopicTrie_init) p = []"
  by (cases p) (simp_all add: TopicTrie_init_def)

lemma bindings_recorded_distinct:
  "bindings_recorded s \<Longrightarrow> distinct (bound_at s ex path)"
  unfolding bindings_recorded_def by blast

lemma bindings_recorded_queue:
  "bindings_recorded s \<Longrightarrow> q \<in> set (bound_at s ex path) \<Longrightarrow> queues s q \<noteq> None"
  unfolding bindings_recorded_def by blast

lemma bindings_recorded_record:
  "bindings_recorded s \<Longrightarrow> q \<in> set (bound_at s ex path) \<Longrightarrow>
     \<exists>k. (ex, k) \<in> set (dd_get (bindings_by_queue s) q) \<and> str_split CHR ''.'' k = path"
  unfolding bindings_recorded_def by blast

lemma bindings_recorded_frame:
  assumes "bindings_recorded s"
    and "exchanges s' = exchanges s"
    and "bindings_by_queue s' = bindings_by_queue s"
    and "\<And>q. queues s q \<noteq> None \<Longrightarrow> queues s' q \<noteq> None"
  shows "bindings_recorded s'"
  using assms unfolding bindings_recorded_def bound_at_def by auto

lemma bindings_recorded_init: "bindings_recorded ZeroMQRouter_init"
  by (simp add: bindings_recorded_def bound_at_def ZeroMQRouter_init_def)

lemma bound_at_declare_exchange:
  "bound_at (snd (declare_exchange ex kw s)) e p = bound_at s e p"
  by (simp add: declare_exchange_def bound_at_def stored_empty_root)

lemma bindings_recorded_declare_exchange:
  "bindings_recorded s \<Longrightarrow> bindings_recorded (snd (declare_exchange ex kw s))"
  unfolding bindings_recorded_def bound_at_declare_exchange
  by (simp add: declare_exchange_def)

lemma bindings_recorded_delete_exchange:
  "bindings_recorded s \<Longrightarrow> bindings_recorded (snd (delete_exchange ex s))"
  unfolding bindings_recorded_def bound_at_def
  by (auto simp: delete_exchange_def split: option.splits if_splits)

lemma bindings_recorded_declare_queue:
  "bindings_recorded s \<Longrightarrow> declare_queue q uuid4 s = Some (r, s') \<Longrightarrow> bindings_recorded s'"
  by (erule bindings_recorded_frame)
    (auto simp: declare_queue_def split: option.splits if_splits)

lemma bound_at_bind:
  "exchanges s ex \<noteq> None \<Longrightarrow> queues s q \<noteq> None \<Longrightarrow>
   bound_at (snd (bind ex q k s)) e p =
     (if e = ex \<and> p = str_split CHR ''.'' k
      then (if q \<in> set (bound_at s e p) then bound_at s e p else bound_at s e p @ [q])
      else bound_at s e p)"
  by (auto simp: bind_def bound_at_def add_topic_tree_def stored_add_tokens)

lemma bindings_recorded_bind:
  assumes "bindings_recorded s"
  shows "bindings_recorded (snd (bind ex q k s))"
proof (cases "exchanges s ex \<noteq> None \<and> queues s q \<noteq> None")
  case False
  then have "snd (bind ex q k s) = s" by (auto simp: bind_def split: option.splits)
  with assms show ?thesis by simp
next
  case True
  then have e: "exchanges s ex \<noteq> None" and qq: "queues s q \<noteq> None" by simp_all
  have qs: "queues (snd (bind ex q k s)) = queues s"
    using True by (auto simp: bind_def)
  have bb: "\<And>q'. dd_get (bindings_by_queue (snd (bind ex q k s))) q'
      = (if q' = q then dd_get (bindings_by_queue s) q @ [(ex, k)]
         else dd_get (bindings_by_queue s) q')"
    using True by (auto simp: bind_def dd_get_def)
  show ?thesis
    unfolding bindings_recorded_def
  proof (intro allI conjI ballI)
    fix e p
    show "distinct (bound_at (snd (bind ex q k s)) e p)"
      using bindings_recorded_distinct [OF assms, of e p] by (auto simp: bound_at_bind [OF e qq])
  next
    fix e p q'
    assume "q' \<in> set (bound_at (snd (bind ex q k s)) e p)"
    then consider (old) "q' \<in> set (bound_at s e p)"
      | (new) "q' = q" "e = ex" "p = str_split CHR ''.'' k"
      by (auto simp: bound_at_bind [OF e qq] split: if_splits)
    then show "queues (snd (bind ex q k s)) q' \<noteq> None"
    proof cases
      case old
      from bindings_recorded_queue [OF assms old] show ?thesis by (simp add: qs)
    next
      case new
      with qq show ?thesis by (simp add: qs)
    qed
  next
    fix e p q'
    assume "q' \<in> set (bound_at (snd (bind ex q k s)) e p)"
    then consider (old) "q' \<in> set (bound_at s e p)"
      | (new) "q' = q" "e = ex" "p = str_split CHR ''.'' k"
      by (auto simp: bound_at_bind [OF e qq] split: if_splits)
    then show "\<exists>k'. (e, k') \<in> set (dd_get (bindings_by_queue (snd (bind ex q k s))) q')
                   \<and> str_split CHR ''.'' k' = p"
    proof cases
      case old
      from bindings_recorded_record [OF assms old] obtain k'
        where "(e, k') \<in> set (dd_get (bindings_by_queue s) q')" "str_split CHR ''.'' k' = p"
        by blast
      then show ?thesis by (auto simp: bb)
    next
      case new
      then show ?thesis by (auto simp: bb)
    qed
  qed
qed

lemma str_split_not_Nil: "str_split sep s \<noteq> []"
  by (induction s) (auto split: list.splits)

lemma bound_at_unbind:
  "exchanges s ex \<noteq> None \<Longrightarrow> queues s q \<noteq> None \<Longrightarrow>
   bound_at (snd (unbind ex q k s)) e p =
     (if e = ex \<and> p = str_split CHR ''.'' k then remove1 q (bound_at s e p)
      else bound_at s e p)"
  by (auto simp: unbind_def bound_at_def remove_topic_tree_def stored_remove_tokens)

lemma bindings_recorded_unbind:
  assumes "bindings_recorded s"
  shows "bindings_recorded (snd (unbind ex q k s))"
proof (cases "exchanges s ex \<noteq> None \<and> queues s q \<noteq> None")
  case False
  then have "snd (unbind ex q k s) = s" by (auto simp: unbind_def split: option.splits)
  with assms show ?thesis by simp
next
  case True
  then have e: "exchanges s ex \<noteq> None" and qq: "queues s q \<noteq> None" by simp_all
  have qs: "queues (snd (unbind ex q k s)) = queues s"
    using True by (auto simp: unbind_def)
  have bb: "\<And>q'. dd_get (bindings_by_queue (snd (unbind ex q k s))) q'
      = (if q' = q then remove1 (ex, k) (dd_get (bindings_by_queue s) q)
         else dd_get (bindings_by_queue s) q')"
    using True by (auto simp: unbind_def dd_get_def)
  have d: "\<And>e p. distinct (bound_at s e p)"
    by (rule bindings_recorded_distinct [OF assms])
  have old: "q' \<in> set (bound_at s e p) \<and> \<not> (q' = q \<and> e = ex \<and> p = str_split CHR ''.'' k)"
    if "q' \<in> set (bound_at (snd (unbind ex q k s)) e p)" for e p q'
    using that d [of e p] by (auto simp: bound_at_unbind [OF e qq] split: if_splits)
  show ?thesis
    unfolding bindings_recorded_def
  proof (intro allI conjI ballI)
    fix e p
    show "distinct (bound_at (snd (unbind ex q k s)) e p)"
      using d [of e p] by (auto simp: bound_at_unbind [OF e qq])
  next
    fix e p q'
    assume "q' \<in> set (bound_at (snd (unbind ex q k s)) e p)"
    from old [OF this] have "q' \<in> set (bound_at s e p)" by simp
    from bindings_recorded_queue [OF assms this]
    show "queues (snd (unbind ex q k s)) q' \<noteq> None" by (simp add: qs)
  next
    fix e p q'
    assume "q' \<in> set (bound_at (snd (unbind ex q k s)) e p)"
    from old [OF this] have o: "q' \<in> set (bound_at s e p)"
      and ne: "\<not> (q' = q \<and> e = ex \<and> p = str_split CHR ''.'' k)" by simp_all
    from bindings_recorded_record [OF assms o] obtain k'
      where k': "(e, k') \<in> set (dd_get (bindings_by_queue s) q')" "str_split CHR ''.'' k' = p"
      by blast
    show "\<exists>k'. (e, k') \<in> set (dd_get (bindings_by_queue (snd (unbind ex q k s))) q')
                   \<and> str_split CHR ''.'' k' = p"
    proof (cases "q' = q")
      case False
      with k' show ?thesis by (auto simp: bb)
    next
      case True
      with ne k' have "(e, k') \<noteq> (ex, k)" by auto
      with k' True have "(e, k') \<in> set (remove1 (ex, k) (dd_get (bindings_by_queue s) q))"
        by simp
      with k' True show ?thesis by (auto simp: bb)
    qed
  qed
qed

lemma kill_bindings_other_fields:
  "queues (kill_bindings q bs s) = queues s
   \<and> bindings_by_queue (kill_bindings q bs s) = bindings_by_queue s"
  by (induction q bs s rule: kill_bindings.induct) (auto split: option.splits)

lemma bound_at_kill_step:
  "bound_at (case exchanges s ex of
               Some tr \<Rightarrow> s\<lparr>exchanges := (exchanges s)(ex \<mapsto> remove_topic_tree k q tr)\<rparr>
             | None \<Rightarrow> s) e p
   = (if e = ex \<and> p = str_split CHR ''.'' k then remove1 q (bound_at s e p) else bound_at s e p)"
  by (auto simp: bound_at_def remove_topic_tree_def stored_remove_tokens split: option.splits)

lemma bound_at_kill_bindings:
  "(\<And>e p. distinct (bound_at s e p)) \<Longrightarrow>
   bound_at (kill_bindings q bs s) e p =
     (if \<exists>k. (e, k) \<in> set bs \<and> str_split CHR ''.'' k = p then removeAll q (bound_at s e p)
      else bound_at s e p)"
proof (induction q bs s rule: kill_bindings.induct)
  case (1 queue s)
  then show ?case by simp
next
  case (2 queue ex binding rest s)
  let ?s1 = "case exchanges s ex of
               Some tr \<Rightarrow> s\<lparr>exchanges := (exchanges s)(ex \<mapsto> remove_topic_tree binding queue tr)\<rparr>
             | None \<Rightarrow> s"
  have d1: "\<And>e p. distinct (bound_at ?s1 e p)"
    using "2.prems" by (simp add: bound_at_kill_step del: remove_topic_tree_def)
  have r: "\<And>e p. remove1 queue (bound_at s e p) = removeAll queue (bound_at s e p)"
    using "2.prems" by (simp add: distinct_remove1_removeAll)
  have "bound_at (kill_bindings queue ((ex, binding) # rest) s) e p
      = bound_at (kill_bindings queue rest ?s1) e p" by simp
  also have "\<dots> = (if \<exists>k. (e, k) \<in> set rest \<and> str_split CHR ''.'' k = p
                    then removeAll queue (bound_at ?s1 e p) else bound_at ?s1 e p)"
    by (rule "2.IH" [OF d1])
  also have "\<dots> = (if \<exists>k. (e, k) \<in> set ((ex, binding) # rest) \<and> str_split CHR ''.'' k = p
                    then removeAll queue (bound_at s e p) else bound_at s e p)"
    by (auto simp: bound_at_kill_step r)
  finally show ?case .
qed

lemma queues_delete_queue: "queues (snd (delete_queue q s)) q = None"
  by (simp add: delete_queue_def kill_bindings_other_fields)

lemma bindings_recorded_delete_queue:
  assumes "bindings_recorded s"
  shows "bindings_recorded (snd (delete_queue q s))"
proof (cases "queues s q = None")
  case True
  with assms show ?thesis by (simp add: delete_queue_def)
next
  case False
  let ?bs = "dd_get (bindings_by_queue s) q"
  let ?s0 = "s\<lparr>queues := (queues s)(q := None),
               bindings_by_queue := dd_touch (bindings_by_queue s) q\<rparr>"
  let ?s' = "kill_bindings q ?bs ?s0"
  have s': "snd (delete_queue q s) = ?s'" using False by (simp add: delete_queue_def)
  have b0: "\<And>e p. bound_at ?s0 e p = bound_at s e p" by (simp add: bound_at_def)
  have d0: "\<And>e p. distinct (bound_at ?s0 e p)"
    using bindings_recorded_distinct [OF assms] by (simp add: b0)
  have b: "\<And>e p. bound_at ?s' e p =
     (if \<exists>k. (e, k) \<in> set ?bs \<and> str_split CHR ''.'' k = p then removeAll q (bound_at s e p)
      else bound_at s e p)"
    by (auto simp: bound_at_kill_bindings [OF d0] b0)
  have qs: "queues ?s' = (queues s)(q := None)"
    by (simp add: kill_bindings_other_fields)
  have bb: "\<And>q'. dd_get (bindings_by_queue ?s') q' = dd_get (bindings_by_queue s) q'"
    by (simp add: kill_bindings_other_fields dd_touch_def dd_get_def)
  have old: "q' \<in> set (bound_at s e p) \<and> q' \<noteq> q" if "q' \<in> set (bound_at ?s' e p)" for e p q'
  proof -
    from that have o: "q' \<in> set (bound_at s e p)" by (auto simp: b split: if_splits)
    have "q' \<noteq> q"
    proof
      assume "q' = q"
      with o bindings_recorded_record [OF assms, of q e p]
      have "\<exists>k. (e, k) \<in> set ?bs \<and> str_split CHR ''.'' k = p" by simp
      with that \<open>q' = q\<close> show False by (simp add: b)
    qed
    with o show ?thesis by simp
  qed
  show ?thesis
    unfolding s' bindings_recorded_def
  proof (intro allI conjI ballI)
    fix e p
    show "distinct (bound_at ?s' e p)"
      using bindings_recorded_distinct [OF assms, of e p] by (simp add: b distinct_removeAll)
  next
    fix e p q'
    assume "q' \<in> set (bound_at ?s' e p)"
    from old [OF this] have o: "q' \<in> set (bound_at s e p)" and ne: "q' \<noteq> q" by simp_all
    from bindings_recorded_queue [OF assms o] ne
    show "queues ?s' q' \<noteq> None" by (simp add: qs)
  next
    fix e p q'
    assume "q' \<in> set (bound_at ?s' e p)"
    from old [OF this] have o: "q' \<in> set (bound_at s e p)" by simp
    from bindings_recorded_record [OF assms o]
    show "\<exists>k. (e, k) \<in> set (dd_get (bindings_by_queue ?s') q') \<and> str_split CHR ''.'' k = p"
      by (simp add: bb)
  qed
qed

lemma deliver_frame:
  "exchanges (snd (deliver qs m s)) = exchanges s
   \<and> bindings_by_queue (snd (deliver qs m s)) = bindings_by_queue s
   \<and> (\<forall>q. queues s q \<noteq> None \<longrightarrow> queues (snd (deliver qs m s)) q \<noteq> None)"
  by (induction qs m s rule: deliver.induct) (auto split: option.splits)

lemma route_frame:
  "exchanges (snd (route ex rk body props s)) = exchanges s"
  "bindings_by_queue (snd (route ex rk body props s)) = bindings_by_queue s"
  "queues s q \<noteq> None \<Longrightarrow> queues (snd (route ex rk body props s)) q \<noteq> None"
proof -
  show "exchanges (snd (route ex rk body props s)) = exchanges s"
    by (cases "exchanges s ex") (simp_all add: route_def deliver_frame)
  show "bindings_by_queue (snd (route ex rk body props s)) = bindings_by_queue s"
    by (cases "exchanges s ex") (simp_all add: route_def deliver_frame)
  show "queues s q \<noteq> None \<Longrightarrow> queues (snd (route ex rk body props s)) q \<noteq> None"
    by (cases "exchanges s ex") (simp_all add: route_def deliver_frame)
qed

lemma run_gl_msgs_step_unfolded:
  "run_gl_msgs_step (ex, rk, body, u) s =
     (case u of
        Inl e \<Rightarrow> s\<lparr>errors := errors s @ [e]\<rparr>
      | Inr props \<Rightarrow>
          (case fst (route ex rk body props s) of
             Inl e \<Rightarrow> (snd (route ex rk body props s))
                        \<lparr>errors := errors (snd (route ex rk body props s)) @ [e]\<rparr>
           | Inr x \<Rightarrow> snd (route ex rk body props s)))"
  by (simp add: run_gl_msgs_step_def split: sum.splits prod.splits)

lemma bindings_recorded_run_gl_msgs:
  assumes "bindings_recorded s"
  shows "bindings_recorded (run_gl_msgs_step frame s)"
proof -
  obtain ex rk body u where f: "frame = (ex, rk, body, u)" by (cases frame) auto
  show ?thesis
  proof (rule bindings_recorded_frame [OF assms])
    show "exchanges (run_gl_msgs_step frame s) = exchanges s"
      by (simp add: f run_gl_msgs_step_unfolded route_frame split: sum.splits)
    show "bindings_by_queue (run_gl_msgs_step frame s) = bindings_by_queue s"
      by (simp add: f run_gl_msgs_step_unfolded route_frame split: sum.splits)
    show "queues (run_gl_msgs_step frame s) q \<noteq> None" if "queues s q \<noteq> None" for q
      using that route_frame(3) [OF that]
      by (simp add: f run_gl_msgs_step_unfolded split: sum.splits)
  qed
qed

lemma bindings_recorded_start_consume:
  "bindings_recorded s \<Longrightarrow> bindings_recorded (snd (start_consume cb q no_ack excl s))"
  by (erule bindings_recorded_frame)
    (auto simp: start_consume_def generate_ctag_def split: prod.splits if_splits)

lemma bindings_recorded_stop_consume:
  "bindings_recorded s \<Longrightarrow> bindings_recorded (snd (stop_consume ctag s))"
  by (erule bindings_recorded_frame)
    (auto simp: stop_consume_def return_ctag_def Let_def split: option.splits if_splits)

lemma bindings_recorded_consumer_iter:
  "bindings_recorded s \<Longrightarrow> run_consumer_iter ctag qn cnt m s = Some (d, cnt', s')
     \<Longrightarrow> bindings_recorded s'"
  by (erule bindings_recorded_frame)
    (auto simp: run_consumer_iter_def split: qitem.splits prod.splits)

lemma bindings_recorded_ack:
  "bindings_recorded s \<Longrightarrow> bindings_recorded (snd (ack t s))"
  by (erule bindings_recorded_frame) (auto simp: ack_def)

lemma bindings_recorded_reject:
  "bindings_recorded s \<Longrightarrow> bindings_recorded (snd (reject t requeue s))"
  by (erule bindings_recorded_frame)
    (auto simp: reject_def Let_def Queue_append_def split: option.splits prod.splits)

lemma reachable_bindings_recorded: "reachable s \<Longrightarrow> bindings_recorded s"
proof (induction rule: reachable.induct)
  case init
  show ?case by (rule bindings_recorded_init)
next
  case (consumer_get s q buf x rest)
  then show ?case by (auto elim!: bindings_recorded_frame)
qed (auto intro: bindings_recorded_declare_exchange bindings_recorded_delete_exchange
    bindings_recorded_declare_queue bindings_recorded_delete_queue bindings_recorded_bind
    bindings_recorded_unbind bindings_recorded_run_gl_msgs bindings_recorded_start_consume
    bindings_recorded_stop_consume bindings_recorded_consumer_iter bindings_recorded_ack
    bindings_recorded_reject)

text \<open>
  C7. In every state the router can reach, after \<open>delete_queue(Q)\<close> no exchange that
  is left has \<open>Q\<close> in its match set for any routing key.
\<close>

theorem delete_queue_cascades:
  assumes "reachable s" and "exchanges (snd (delete_queue q s)) ex = Some tr"
  shows "q \<notin> get_all_matches tr rk"
proof
  assume "q \<in> get_all_matches tr rk"
  then have "q \<in> set (Node_get_all_matches (root tr) (str_split CHR ''.'' rk))"
    by (simp add: get_all_matches_def)
  from matches_are_stored [OF this] obtain p where "q \<in> set (stored (root tr) p)" ..
  with assms(2) have "q \<in> set (bound_at (snd (delete_queue q s)) ex p)"
    by (simp add: bound_at_def)
  moreover from assms(1) have "bindings_recorded (snd (delete_queue q s))"
    by (intro reachable_bindings_recorded reachable.delete_queue)
  ultimately have "queues (snd (delete_queue q s)) q \<noteq> None"
    by (rule bindings_recorded_queue [rotated])
  then show False by (simp add: queues_delete_queue)
qed

theorem delete_queue_cascades_witness:
  "reachable router_q1_bound
   \<and> ''q1'' \<in> get_all_matches (the (exchanges router_q1_bound ''ex1'')) ''a.b''
   \<and> exchanges (snd (delete_queue ''q1'' router_q1_bound)) ''ex1''
       = Some (TopicTrie (Node None []
                [(''a'', Node (Some ''a'') [] [(''#'', Node (Some ''#'') [] [])])]))
   \<and> ''q1'' \<notin> get_all_matches
        (TopicTrie (Node None []
                [(''a'', Node (Some ''a'') [] [(''#'', Node (Some ''#'') [] [])])])) ''a.b''"
proof -
  let ?s1 = "snd (declare_exchange ''ex1'' kwargs_a router_empty)"
  let ?s2 = "?s1\<lparr>queues := (queues ?s1)(''q1'' \<mapsto> [])\<rparr>"
  have dq: "declare_queue (Some ''q1'') uuid_fixed ?s1 = Some (Inr ''q1'', ?s2)"
    by (simp add: declare_queue_def declare_exchange_def router_empty_def ZeroMQRouter_init_def)
  have "reachable router_empty"
    unfolding router_empty_def by (rule reachable.init)
  then have "reachable ?s1" by (rule reachable.declare_exchange)
  then have "reachable ?s2" using dq by (rule reachable.declare_queue)
  then have "reachable (snd (bind ''ex1'' ''q1'' ''a.#'' ?s2))" by (rule reachable.bind)
  then have r: "reachable router_q1_bound"
    by (simp add: router_q1_bound_def dq)
  have before: "''q1'' \<in> get_all_matches (the (exchanges router_q1_bound ''ex1'')) ''a.b''"
    by (simp add: router_q1_bound_def declare_queue_def bind_def declare_exchange_def
        router_empty_def ZeroMQRouter_init_def dd_get_def get_all_matches_def add_topic_tree_def TopicTrie_init_def
        set_child_def get_or_create_child_def new_node_def)
  have e: "exchanges (snd (delete_queue ''q1'' router_q1_bound)) ''ex1''
       = Some (TopicTrie (Node None []
                [(''a'', Node (Some ''a'') [] [(''#'', Node (Some ''#'') [] [])])]))"
    by (simp add: router_q1_bound_def declare_queue_def bind_def declare_exchange_def
        router_empty_def ZeroMQRouter_init_def delete_queue_def dd_get_def dd_touch_def
        add_topic_tree_def remove_topic_tree_def TopicTrie_init_def
        set_child_def get_or_create_child_def new_node_def)
  from delete_queue_cascades [OF r e, of "''a.b''"] r before e show ?thesis by blast
qed

section \<open>Routing in reachable states\<close>





end
